theory Spec2Isabelle
  imports Main "HOL-Library.Word"
begin

unbundle bit_operations_syntax

section \<open>The MCP WebSocket dissector (src/wireshark/mcp\_dissector.c)\<close>

text \<open>
  The dissector consists of two C functions that matter here:
  \<^item> \<open>dissect_mcp_websocket\<close> decodes the WebSocket frame header of a captured buffer,
    adds the header fields to the protocol tree and, for a fully captured text frame,
    runs the JSON-RPC field extractor on the payload;
  \<^item> \<open>parse_json_rpc\<close> scans a private, writable copy of the payload text with
    \<open>strstr\<close>/\<open>strchr\<close> and hand-written loops, and temporarily overwrites bytes of the
    copy to cut values out of it.
  The embedding keeps the copy as an explicit block of bytes addressed by index, so that
  every read and write of the C code is a bounds-checked access of the model and every
  overwrite is visible to the scans that follow it.
\<close>

subsection \<open>Faults\<close>

text \<open>
  \<open>OutOfBounds\<close>: an access of the C code outside the block it points into (undefined
  behaviour in C). \<open>FrameworkException\<close>: an exception raised by a bounds check of the
  capture framework's buffer accessors.
\<close>

datatype fault = OutOfBounds | FrameworkException

definition and_then :: "fault + 'a \<Rightarrow> ('a \<Rightarrow> fault + 'b) \<Rightarrow> fault + 'b" where
  "and_then r f = (case r of Inl e \<Rightarrow> Inl e | Inr x \<Rightarrow> f x)"

subsection \<open>The captured buffer and its accessors\<close>

text \<open>
  A \<open>tvbuff_t\<close> is modelled by the list of its captured bytes; \<open>tvb_captured_length\<close> is the
  length of the list. The accessors belong to the capture framework: they read big-endian
  and raise an exception when the requested bytes are not all captured.
\<close>

type_synonym tvbuff = "8 word list"

definition tvb_captured_length :: "tvbuff \<Rightarrow> nat" where
  "tvb_captured_length tvb = length tvb"

definition tvb_get_guint8 :: "tvbuff \<Rightarrow> nat \<Rightarrow> fault + 8 word" where
  "tvb_get_guint8 tvb off =
     (if off < length tvb then Inr (tvb ! off) else Inl FrameworkException)"

fun be_word :: "8 word list \<Rightarrow> nat" where
  "be_word [] = 0"
| "be_word (b # bs) = unat b * 256 ^ length bs + be_word bs"

definition tvb_get_ntohs :: "tvbuff \<Rightarrow> nat \<Rightarrow> fault + 16 word" where
  "tvb_get_ntohs tvb off =
     (if off + 2 \<le> length tvb then Inr (of_nat (be_word (take 2 (drop off tvb))))
      else Inl FrameworkException)"

definition tvb_get_ntoh64 :: "tvbuff \<Rightarrow> nat \<Rightarrow> fault + 64 word" where
  "tvb_get_ntoh64 tvb off =
     (if off + 8 \<le> length tvb then Inr (of_nat (be_word (take 8 (drop off tvb))))
      else Inl FrameworkException)"

text \<open>
  \<open>tvb_new_subset_length (backing, backing_offset, reported_length)\<close> takes both numbers as
  \<open>gint\<close>; the framework raises an exception for a negative length and for an offset
  past the captured bytes, and otherwise gives the captured bytes of that range.
\<close>

definition tvb_new_subset_length :: "tvbuff \<Rightarrow> 32 word \<Rightarrow> 32 word \<Rightarrow> fault + tvbuff" where
  "tvb_new_subset_length tvb off len =
     (if sint len < 0 \<or> length tvb < unat off then Inl FrameworkException
      else Inr (take (unat len) (drop (unat off) tvb)))"

subsection \<open>The frame header (\<open>dissect_mcp_websocket\<close>, lines 223--256)\<close>

text \<open>
  The local variables \<open>fin\<close>, \<open>opcode\<close>, \<open>offset\<close> and \<open>payload_len\<close> as they stand after the
  header has been read. \<open>offset\<close> is a \<open>guint\<close> and \<open>payload_len\<close> a \<open>guint32\<close>: both are 32-bit
  words, and their sum wraps.
\<close>

record ws_header =
  fin :: "8 word"
  opcode :: "8 word"
  offset :: "32 word"
  payload_len :: "32 word"

text \<open>
  \<open>parse_ws_header\<close> is the code from the length check of line 235 to line 256.
  \<open>Inr None\<close> is one of the three \<open>return 0\<close> statements: the buffer is too short for the
  header it announces.
\<close>

definition parse_ws_header :: "tvbuff \<Rightarrow> fault + ws_header option" where
  "parse_ws_header tvb =
     (if tvb_captured_length tvb < 2 then Inr None
      else
        and_then (tvb_get_guint8 tvb 0) (\<lambda>b0.
        and_then (tvb_get_guint8 tvb 0) (\<lambda>b0'.
        and_then (tvb_get_guint8 tvb 1) (\<lambda>b1.
          let fin0 = drop_bit 7 (b0 AND 0x80);
              opcode0 = b0' AND 0x0F;
              payload_len0 = (ucast (b1 AND 0x7F) :: 32 word);
              offset0 = (2 :: 32 word)
          in
            if payload_len0 = 126 then
              (if tvb_captured_length tvb < unat (offset0 + 2) then Inr None
               else
                 and_then (tvb_get_ntohs tvb (unat offset0)) (\<lambda>payload_len_16.
                   Inr (Some \<lparr>fin = fin0, opcode = opcode0, offset = offset0 + 2,
                              payload_len = ucast payload_len_16\<rparr>)))
            else if payload_len0 = 127 then
              (if tvb_captured_length tvb < unat (offset0 + 8) then Inr None
               else
                 and_then (tvb_get_ntoh64 tvb (unat offset0)) (\<lambda>payload_len_64.
                   Inr (Some \<lparr>fin = fin0, opcode = opcode0, offset = offset0 + 8,
                              payload_len = ucast payload_len_64\<rparr>)))
            else
              Inr (Some \<lparr>fin = fin0, opcode = opcode0, offset = offset0,
                         payload_len = payload_len0\<rparr>)))))"

text \<open>
  The guard of line 267: the payload is handed on only when this holds. The sum is the
  32-bit sum the C expression computes.
\<close>

definition payload_captured :: "tvbuff \<Rightarrow> ws_header \<Rightarrow> bool" where
  "payload_captured tvb h =
     (0 < payload_len h \<and> unat (offset h + payload_len h) \<le> tvb_captured_length tvb)"

subsection \<open>C strings in a block of bytes\<close>

text \<open>
  A block is the list of the bytes of one allocation; a pointer into it is an index.
  Reading or writing at an index that is not below the length of the block is the fault
  \<open>OutOfBounds\<close>. The library functions \<open>strstr\<close>, \<open>strchr\<close>, \<open>strncmp\<close>, \<open>strlen\<close> and
  \<open>strtol\<close> are modelled by byte-wise scans that stop where the C functions stop (at the
  match or at the terminating zero byte); they fault only when the scan has to read
  the byte after the last byte of the block.
\<close>

type_synonym block = "char list"

definition NUL :: char where
  "NUL = CHR 0x00"

definition dquote :: char where
  "dquote = CHR 0x22"

definition load :: "block \<Rightarrow> nat \<Rightarrow> fault + char" where
  "load m p = (if p < length m then Inr (m ! p) else Inl OutOfBounds)"

definition store :: "block \<Rightarrow> nat \<Rightarrow> char \<Rightarrow> fault + block" where
  "store m p c = (if p < length m then Inr (m[p := c]) else Inl OutOfBounds)"

text \<open>\<open>lit_at k xs\<close>: do the bytes \<open>xs\<close> begin with the literal \<open>k\<close> (which has no zero byte)?\<close>

fun lit_at :: "string \<Rightarrow> char list \<Rightarrow> fault + bool" where
  "lit_at [] xs = Inr True"
| "lit_at (k # ks) [] = Inl OutOfBounds"
| "lit_at (k # ks) (x # xs) = (if x = k then lit_at ks xs else Inr False)"

text \<open>The scans below work on the bytes from the pointer on and give a distance.\<close>

fun strstr_l :: "string \<Rightarrow> char list \<Rightarrow> fault + nat option" where
  "strstr_l key [] = Inl OutOfBounds"
| "strstr_l key (x # xs) =
     and_then (lit_at key (x # xs)) (\<lambda>hit.
       if hit then Inr (Some 0)
       else if x = NUL then Inr None
       else and_then (strstr_l key xs) (\<lambda>r. Inr (map_option Suc r)))"

fun strchr_l :: "char \<Rightarrow> char list \<Rightarrow> fault + nat option" where
  "strchr_l c [] = Inl OutOfBounds"
| "strchr_l c (x # xs) =
     (if x = c then Inr (Some 0)
      else if x = NUL then Inr None
      else and_then (strchr_l c xs) (\<lambda>r. Inr (map_option Suc r)))"

fun strlen_l :: "char list \<Rightarrow> fault + nat" where
  "strlen_l [] = Inl OutOfBounds"
| "strlen_l (x # xs) =
     (if x = NUL then Inr 0 else and_then (strlen_l xs) (\<lambda>n. Inr (Suc n)))"

definition c_strstr :: "block \<Rightarrow> nat \<Rightarrow> string \<Rightarrow> fault + nat option" where
  "c_strstr m p key =
     and_then (strstr_l key (drop p m)) (\<lambda>r. Inr (map_option (\<lambda>i. p + i) r))"

definition c_strchr :: "block \<Rightarrow> nat \<Rightarrow> char \<Rightarrow> fault + nat option" where
  "c_strchr m p c =
     and_then (strchr_l c (drop p m)) (\<lambda>r. Inr (map_option (\<lambda>i. p + i) r))"

definition c_strlen :: "block \<Rightarrow> nat \<Rightarrow> fault + nat" where
  "c_strlen m p = strlen_l (drop p m)"

text \<open>\<open>wmem_strdup (scope, p)\<close>: a fresh copy of the C string at \<open>p\<close>, without its terminator.\<close>

definition c_strdup :: "block \<Rightarrow> nat \<Rightarrow> fault + string" where
  "c_strdup m p = and_then (c_strlen m p) (\<lambda>n. Inr (take n (drop p m)))"

text \<open>\<open>while (*pos == ' ' || *pos == '\t') pos++;\<close>\<close>

fun skip_ws_l :: "char list \<Rightarrow> fault + nat" where
  "skip_ws_l [] = Inl OutOfBounds"
| "skip_ws_l (x # xs) =
     (if x = CHR '' '' \<or> x = CHR 0x09 then and_then (skip_ws_l xs) (\<lambda>n. Inr (Suc n))
      else Inr 0)"

definition skip_ws :: "block \<Rightarrow> nat \<Rightarrow> fault + nat" where
  "skip_ws m p = and_then (skip_ws_l (drop p m)) (\<lambda>n. Inr (p + n))"

text \<open>
  The brace loop (lines 496--506, 530--540 and 567--577), started with \<open>brace_count = 0\<close>
  at the opening brace; the result is how far \<open>end\<close> has moved.
\<close>

fun brace_scan_l :: "int \<Rightarrow> char list \<Rightarrow> fault + nat" where
  "brace_scan_l brace_count [] = Inl OutOfBounds"
| "brace_scan_l brace_count (x # xs) =
     (if x = NUL then Inr 0
      else if x = CHR ''{'' then
        and_then (brace_scan_l (brace_count + 1) xs) (\<lambda>n. Inr (Suc n))
      else if x = CHR ''}'' then
        (if brace_count - 1 = 0 then Inr 1
         else and_then (brace_scan_l (brace_count - 1) xs) (\<lambda>n. Inr (Suc n)))
      else and_then (brace_scan_l brace_count xs) (\<lambda>n. Inr (Suc n)))"

definition brace_scan :: "block \<Rightarrow> nat \<Rightarrow> fault + nat" where
  "brace_scan m p = and_then (brace_scan_l 0 (drop p m)) (\<lambda>n. Inr (p + n))"

text \<open>\<open>while (*end && *end != ',' && *end != '}') end++;\<close> (line 425)\<close>

fun id_scan_l :: "char list \<Rightarrow> fault + nat" where
  "id_scan_l [] = Inl OutOfBounds"
| "id_scan_l (x # xs) =
     (if x \<noteq> NUL \<and> x \<noteq> CHR '','' \<and> x \<noteq> CHR ''}'' then
        and_then (id_scan_l xs) (\<lambda>n. Inr (Suc n))
      else Inr 0)"

definition id_scan :: "block \<Rightarrow> nat \<Rightarrow> fault + nat" where
  "id_scan m p = and_then (id_scan_l (drop p m)) (\<lambda>n. Inr (p + n))"

text \<open>
  \<open>(int)strtol(pos, &end, 10)\<close>, called only where \<open>*pos\<close> is a minus sign or a digit:
  an optional sign, then the decimal digits; no digits give 0. \<open>long\<close> is taken to be
  64 bits wide (the result saturates there) and the conversion to \<open>int\<close> keeps the low
  32 bits.
\<close>

definition is_digit :: "char \<Rightarrow> bool" where
  "is_digit c = (of_char (CHR ''0'') \<le> (of_char c :: nat) \<and> (of_char c :: nat) \<le> of_char (CHR ''9''))"

fun digits_l :: "nat \<Rightarrow> char list \<Rightarrow> fault + nat" where
  "digits_l acc [] = Inl OutOfBounds"
| "digits_l acc (x # xs) =
     (if is_digit x then digits_l (acc * 10 + (of_char x - of_char (CHR ''0''))) xs
      else Inr acc)"

definition strtol_l :: "char list \<Rightarrow> fault + int" where
  "strtol_l xs =
     (case xs of
        [] \<Rightarrow> Inl OutOfBounds
      | x # xs' \<Rightarrow>
          if x = CHR ''-'' then
            and_then (digits_l 0 xs') (\<lambda>n. Inr (max (- (2 ^ 63)) (- int n)))
          else
            and_then (digits_l 0 (x # xs')) (\<lambda>n. Inr (min (2 ^ 63 - 1) (int n))))"

definition long_to_int :: "int \<Rightarrow> int" where
  "long_to_int v = sint (word_of_int v :: 32 word)"

subsection \<open>The extracted record\<close>

text \<open>
  \<open>mcp_json_data_t\<close>: a \<open>char *\<close> field is \<open>None\<close> while it is \<open>NULL\<close>. The fields \<open>method\<close> and
  \<open>id\<close> of the C struct are called \<open>method_str\<close> and \<open>id_str\<close> here.
\<close>

record mcp_json_data =
  jsonrpc :: "string option"
  method_str :: "string option"
  id_str :: "string option"
  params :: "string option"
  result :: "string option"
  error_code :: int
  error_message :: "string option"
  agent_id :: "string option"
  encrypted :: bool
  ciphertext :: "string option"
  iv :: "string option"
  ratchet_header :: "string option"

text \<open>\<open>mcp_json_data_t json_data = {0};\<close>\<close>

definition json_data_zero :: mcp_json_data where
  "json_data_zero =
     \<lparr>jsonrpc = None, method_str = None, id_str = None, params = None, result = None,
      error_code = 0, error_message = None, agent_id = None, encrypted = False,
      ciphertext = None, iv = None, ratchet_header = None\<rparr>"

subsection \<open>\<open>extract_agent_id\<close> (lines 650--676)\<close>

text \<open>
  \<open>params\<close> is the C string handed in (its bytes, followed by the terminator, form the
  block that is scanned); \<open>agent_id\<close> is the caller's buffer of \<open>agent_id_len\<close> bytes, and
  the result is that buffer after the call. \<open>strncpy\<close> copies \<open>n\<close> bytes, padding with
  zero bytes after a terminator.
\<close>

definition strncpy_l :: "char list \<Rightarrow> nat \<Rightarrow> char list" where
  "strncpy_l src n =
     (let s = takeWhile (\<lambda>c. c \<noteq> NUL) (take n src) in s @ replicate (n - length s) NUL)"

definition agent_key_pos :: "block \<Rightarrow> fault + nat option" where
  "agent_key_pos pm =
     and_then (c_strstr pm 0 (dquote # ''agentId'' @ [dquote])) (\<lambda>pos.
       case pos of
         None \<Rightarrow> c_strstr pm 0 (dquote # ''agent_id'' @ [dquote])
       | Some p \<Rightarrow> Inr (Some p))"

text \<open>
  Lines 661--668: from the key to the quoted value; the result is the pair of \<open>pos\<close>
  (just behind the opening quote) and \<open>end\<close> (at the closing quote).
\<close>

definition agent_value_span :: "block \<Rightarrow> fault + (nat \<times> nat) option" where
  "agent_value_span pm =
     and_then (agent_key_pos pm) (\<lambda>pos.
       case pos of
         None \<Rightarrow> Inr None
       | Some p0 \<Rightarrow>
           and_then (c_strchr pm p0 (CHR '':'')) (\<lambda>colon.
             case colon of
               None \<Rightarrow> Inr None
             | Some p1 \<Rightarrow>
                 and_then (skip_ws pm (p1 + 1)) (\<lambda>p2.
                 and_then (load pm p2) (\<lambda>c.
                   if c = dquote then
                     and_then (c_strchr pm (p2 + 1) dquote) (\<lambda>e.
                       case e of
                         None \<Rightarrow> Inr None
                       | Some end_p \<Rightarrow> Inr (Some (p2 + 1, end_p)))
                   else Inr None))))"

definition extract_agent_id :: "string \<Rightarrow> char list \<Rightarrow> nat \<Rightarrow> fault + char list" where
  "extract_agent_id params_str agent_id_buf agent_id_len =
     (if agent_id_len = 0 then Inr agent_id_buf
      else
        let pm = params_str @ [NUL] in
        and_then (agent_value_span pm) (\<lambda>span.
          case span of
            None \<Rightarrow> Inr agent_id_buf
          | Some (pos, end_p) \<Rightarrow>
              if int (end_p - pos) < sint (word_of_nat agent_id_len :: 32 word) then
                (let n = end_p - pos;
                     copied = strncpy_l (drop pos pm) n @ drop n agent_id_buf
                 in store copied n NUL)
              else Inr agent_id_buf))"

subsection \<open>\<open>parse_json_rpc\<close> (lines 360--619)\<close>

text \<open>
  The state threaded through the function is the block \<open>json_copy\<close> and the record
  \<open>*data\<close>. Every field is looked up by the same opening moves: \<open>strstr\<close> from the start
  of the block, \<open>strchr\<close> for the colon, one step over it, and the blank-skipping loop.
  \<open>value_pos\<close> gives the pointer reached, or \<open>None\<close> when the key or the colon is missing.
\<close>

definition value_pos :: "block \<Rightarrow> string \<Rightarrow> fault + nat option" where
  "value_pos m key =
     and_then (c_strstr m 0 (dquote # key @ [dquote])) (\<lambda>found.
       case found of
         None \<Rightarrow> Inr None
       | Some p \<Rightarrow>
           and_then (c_strchr m p (CHR '':'')) (\<lambda>colon.
             case colon of
               None \<Rightarrow> Inr None
             | Some q \<Rightarrow> and_then (skip_ws m (q + 1)) (\<lambda>pos. Inr (Some pos))))"

text \<open>
  The quoted value at \<open>pos\<close> (\<open>if (*pos == '"') { ... }\<close>): the closing quote is
  overwritten with the terminator, the value is duplicated, and a quote is written back.
\<close>

definition quoted_value :: "block \<Rightarrow> nat \<Rightarrow> fault + block \<times> string option" where
  "quoted_value m pos =
     and_then (c_strchr m (pos + 1) dquote) (\<lambda>e.
       case e of
         None \<Rightarrow> Inr (m, None)
       | Some end_p \<Rightarrow>
           and_then (store m end_p NUL) (\<lambda>m1.
           and_then (c_strdup m1 (pos + 1)) (\<lambda>v.
           and_then (store m1 end_p dquote) (\<lambda>m2. Inr (m2, Some v)))))"

definition string_field :: "block \<Rightarrow> string \<Rightarrow> fault + block \<times> string option" where
  "string_field m key =
     and_then (value_pos m key) (\<lambda>vp.
       case vp of
         None \<Rightarrow> Inr (m, None)
       | Some pos \<Rightarrow>
           and_then (load m pos) (\<lambda>c.
             if c = dquote then quoted_value m pos else Inr (m, None)))"

text \<open>
  The object value at \<open>pos\<close>, where \<open>*pos == '{'\<close>: after the brace loop the byte at \<open>end\<close>
  is overwritten with the terminator, the value is duplicated, and a closing brace is
  written to \<open>*end\<close>.
\<close>

definition braced_value :: "block \<Rightarrow> nat \<Rightarrow> fault + block \<times> string option" where
  "braced_value m pos =
     and_then (brace_scan m pos) (\<lambda>end_p.
       if pos < end_p then
         and_then (store m end_p NUL) (\<lambda>m1.
         and_then (c_strdup m1 pos) (\<lambda>v.
         and_then (store m1 end_p (CHR ''}'')) (\<lambda>m2. Inr (m2, Some v))))
       else Inr (m, None))"

definition object_field :: "block \<Rightarrow> string \<Rightarrow> fault + block \<times> string option" where
  "object_field m key =
     and_then (value_pos m key) (\<lambda>vp.
       case vp of
         None \<Rightarrow> Inr (m, None)
       | Some pos \<Rightarrow>
           and_then (load m pos) (\<lambda>c.
             if c = CHR ''{'' then braced_value m pos else Inr (m, None)))"

text \<open>
  The unquoted id (lines 421--431): the byte the scan stopped at is overwritten with the
  terminator, the value is duplicated, and then \<open>*end = (*end == ',') ? ',' : '}';\<close>
  reads the byte just written.
\<close>

definition numeric_id :: "block \<Rightarrow> nat \<Rightarrow> fault + block \<times> string option" where
  "numeric_id m pos =
     and_then (id_scan m pos) (\<lambda>end_p.
       if pos < end_p then
         and_then (store m end_p NUL) (\<lambda>m1.
         and_then (c_strdup m1 pos) (\<lambda>v.
         and_then (load m1 end_p) (\<lambda>c.
         and_then (store m1 end_p (if c = CHR '','' then CHR '','' else CHR ''}'')) (\<lambda>m2.
           Inr (m2, Some v)))))
       else Inr (m, None))"

type_synonym parse_state = "block \<times> mcp_json_data"

text \<open>Lines 365--383.\<close>

definition extract_jsonrpc :: "parse_state \<Rightarrow> fault + parse_state" where
  "extract_jsonrpc = (\<lambda>(m, d).
     and_then (string_field m ''jsonrpc'') (\<lambda>(m', v).
       Inr (m', case v of None \<Rightarrow> d | Some s \<Rightarrow> d\<lparr>jsonrpc := Some s\<rparr>)))"

text \<open>Lines 385--403.\<close>

definition extract_method :: "parse_state \<Rightarrow> fault + parse_state" where
  "extract_method = (\<lambda>(m, d).
     and_then (string_field m ''method'') (\<lambda>(m', v).
       Inr (m', case v of None \<Rightarrow> d | Some s \<Rightarrow> d\<lparr>method_str := Some s\<rparr>)))"

text \<open>Lines 405--433.\<close>

definition id_value :: "block \<Rightarrow> fault + block \<times> string option" where
  "id_value m =
     and_then (value_pos m ''id'') (\<lambda>vp.
       case vp of
         None \<Rightarrow> Inr (m, None)
       | Some pos \<Rightarrow>
           and_then (load m pos) (\<lambda>c.
             if c = dquote then quoted_value m pos else numeric_id m pos))"

definition extract_id :: "parse_state \<Rightarrow> fault + parse_state" where
  "extract_id = (\<lambda>(m, d).
     and_then (id_value m) (\<lambda>(m', v).
       Inr (m', case v of None \<Rightarrow> d | Some s \<Rightarrow> d\<lparr>id_str := Some s\<rparr>)))"

text \<open>Lines 435--517. \<open>encrypted_flag\<close> is the test \<open>strncmp (pos, "true", 4) == 0\<close>.\<close>

definition encrypted_flag :: "block \<Rightarrow> fault + bool" where
  "encrypted_flag m =
     and_then (value_pos m ''encrypted'') (\<lambda>vp.
       case vp of
         None \<Rightarrow> Inr False
       | Some pos \<Rightarrow> lit_at ''true'' (drop pos m))"

definition extract_encryption :: "parse_state \<Rightarrow> fault + parse_state" where
  "extract_encryption = (\<lambda>(m, d).
     and_then (encrypted_flag m) (\<lambda>enc.
       if enc then
         and_then (string_field m ''ciphertext'') (\<lambda>(m1, v1).
         and_then (string_field m1 ''iv'') (\<lambda>(m2, v2).
         and_then (object_field m2 ''ratchet_header'') (\<lambda>(m3, v3).
           let d0 = d\<lparr>encrypted := True\<rparr>;
               d1 = (case v1 of None \<Rightarrow> d0 | Some s \<Rightarrow> d0\<lparr>ciphertext := Some s\<rparr>);
               d2 = (case v2 of None \<Rightarrow> d1 | Some s \<Rightarrow> d1\<lparr>iv := Some s\<rparr>);
               d3 = (case v3 of None \<Rightarrow> d2 | Some s \<Rightarrow> d2\<lparr>ratchet_header := Some s\<rparr>)
           in Inr (m3, d3))))
       else Inr (m, d)))"

text \<open>
  Lines 519--554. The local \<open>char agent_id[256] = {0}\<close> is handed to \<open>extract_agent_id\<close>;
  \<open>data->agent_id\<close> is set when \<open>strlen (agent_id) > 0\<close>.
\<close>

definition agent_id_of_params :: "string \<Rightarrow> fault + string option" where
  "agent_id_of_params p =
     and_then (extract_agent_id p (replicate 256 NUL) 256) (\<lambda>agent_id_buf.
     and_then (c_strlen agent_id_buf 0) (\<lambda>n.
       if 0 < n then and_then (c_strdup agent_id_buf 0) (\<lambda>a. Inr (Some a))
       else Inr None))"

definition extract_params :: "parse_state \<Rightarrow> fault + parse_state" where
  "extract_params = (\<lambda>(m, d).
     and_then (object_field m ''params'') (\<lambda>(m', v).
       case v of
         None \<Rightarrow> Inr (m', d)
       | Some p \<Rightarrow>
           and_then (agent_id_of_params p) (\<lambda>a.
             let d1 = d\<lparr>params := Some p\<rparr>
             in Inr (m', case a of None \<Rightarrow> d1 | Some s \<Rightarrow> d1\<lparr>agent_id := Some s\<rparr>))))"

text \<open>Lines 556--585.\<close>

definition extract_result :: "parse_state \<Rightarrow> fault + parse_state" where
  "extract_result = (\<lambda>(m, d).
     and_then (object_field m ''result'') (\<lambda>(m', v).
       Inr (m', case v of None \<Rightarrow> d | Some s \<Rightarrow> d\<lparr>result := Some s\<rparr>)))"

text \<open>Lines 587--598.\<close>

definition extract_error_code :: "parse_state \<Rightarrow> fault + parse_state" where
  "extract_error_code = (\<lambda>(m, d).
     and_then (value_pos m ''code'') (\<lambda>vp.
       case vp of
         None \<Rightarrow> Inr (m, d)
       | Some pos \<Rightarrow>
           and_then (load m pos) (\<lambda>c.
             if c = CHR ''-'' \<or> is_digit c then
               and_then (strtol_l (drop pos m)) (\<lambda>v.
                 Inr (m, d\<lparr>error_code := long_to_int v\<rparr>))
             else Inr (m, d))))"

text \<open>Lines 600--618.\<close>

definition extract_error_message :: "parse_state \<Rightarrow> fault + parse_state" where
  "extract_error_message = (\<lambda>(m, d).
     and_then (string_field m ''message'') (\<lambda>(m', v).
       Inr (m', case v of None \<Rightarrow> d | Some s \<Rightarrow> d\<lparr>error_message := Some s\<rparr>)))"

text \<open>
  \<open>json_copy = wmem_strdup (scope, json_str)\<close>: the bytes of the C string \<open>json_str\<close> and
  the terminator, in a block of exactly that size.
\<close>

definition json_copy_of :: "string \<Rightarrow> block" where
  "json_copy_of json_str = takeWhile (\<lambda>c. c \<noteq> NUL) json_str @ [NUL]"

definition parse_json_rpc :: "string \<Rightarrow> mcp_json_data \<Rightarrow> fault + mcp_json_data" where
  "parse_json_rpc json_str data =
     and_then (extract_jsonrpc (json_copy_of json_str, data)) (\<lambda>s1.
     and_then (extract_method s1) (\<lambda>s2.
     and_then (extract_id s2) (\<lambda>s3.
     and_then (extract_encryption s3) (\<lambda>s4.
     and_then (extract_params s4) (\<lambda>s5.
     and_then (extract_result s5) (\<lambda>s6.
     and_then (extract_error_code s6) (\<lambda>s7.
     and_then (extract_error_message s7) (\<lambda>s8. Inr (snd s8)))))))))"

subsection \<open>\<open>get_method_description\<close> (lines 54--86 and 621--648)\<close>

definition mcp_methods :: "(string \<times> string) list" where
  "mcp_methods =
     [(''initialize'', ''Initialize MCP connection''),
      (''tools/list'', ''List available tools''),
      (''resources/list'', ''List available resources''),
      (''tools/call'', ''Call a tool''),
      (''resources/read'', ''Read a resource''),
      (''notifications/initialized'', ''Connection initialized notification''),
      (''notifications/chess/game_state'', ''Chess game state notification''),
      (''notifications/chess/ai_move'', ''AI move notification''),
      (''notifications/chess/training_progress'', ''Training progress notification'')]"

definition chess_tools :: "(string \<times> string) list" where
  "chess_tools =
     [(''create_chess_game'', ''Create new chess game''),
      (''make_chess_move'', ''Make a chess move''),
      (''get_board_state'', ''Get current board state''),
      (''analyze_position'', ''Analyze chess position''),
      (''get_legal_moves'', ''Get legal moves''),
      (''get_move_hint'', ''Get move hint''),
      (''create_tournament'', ''Create tournament''),
      (''get_tournament_status'', ''Get tournament status'')]"

definition chess_resources :: "(string \<times> string) list" where
  "chess_resources =
     [(''chess://ai-systems'', ''AI systems information''),
      (''chess://opening-book'', ''Opening book database''),
      (''chess://game-history'', ''Game history''),
      (''chess://training-data'', ''Training data''),
      (''chess://performance-metrics'', ''Performance metrics'')]"

fun table_scan :: "(string \<times> string) list \<Rightarrow> string \<Rightarrow> string option" where
  "table_scan [] name = None"
| "table_scan ((k, description) # rest) name =
     (if name = k then Some description else table_scan rest name)"

definition get_method_description :: "string option \<Rightarrow> string option" where
  "get_method_description m =
     (case m of
        None \<Rightarrow> None
      | Some name \<Rightarrow>
          (case table_scan mcp_methods name of
             Some d \<Rightarrow> Some d
           | None \<Rightarrow>
               (case table_scan chess_tools name of
                  Some d \<Rightarrow> Some d
                | None \<Rightarrow> table_scan chess_resources name)))"

subsection \<open>What the dissector hands to the framework\<close>

text \<open>
  The calls that add to the protocol tree and to the columns are recorded as data: a
  field item carries its registered field, its value and the text appended to its
  label; a subtree carries its label and its children in the order they were added.
\<close>

datatype hfield =
    Hf_mcp_version | Hf_mcp_method | Hf_mcp_id | Hf_mcp_params | Hf_mcp_result
  | Hf_mcp_error_code | Hf_mcp_error_message | Hf_mcp_agent_id | Hf_mcp_encrypted
  | Hf_mcp_ciphertext | Hf_mcp_iv | Hf_mcp_ratchet_header
  | Hf_ws_opcode | Hf_ws_fin | Hf_ws_payload_length | Hf_ws_payload

datatype fvalue = FString string | FUInt nat | FInt int | FBool bool

datatype tree_item = Item hfield fvalue string | Subtree string "tree_item list"

datatype col_op = Col_set_protocol string | Col_add_info string | Col_append_info string

record dissection =
  ret :: int
  tree :: "tree_item list"
  cols :: "col_op list"

text \<open>The \<open>%d\<close> conversion of \<open>col_append_fstr\<close>.\<close>

fun dec_digits :: "nat \<Rightarrow> string" where
  "dec_digits n =
     (if n < 10 then [char_of (48 + n)]
      else dec_digits (n div 10) @ [char_of (48 + n mod 10)])"

definition show_int :: "int \<Rightarrow> string" where
  "show_int i = (if i < 0 then CHR ''-'' # dec_digits (nat (- i)) else dec_digits (nat i))"

definition string_item :: "hfield \<Rightarrow> string option \<Rightarrow> tree_item list" where
  "string_item hf v = (case v of None \<Rightarrow> [] | Some s \<Rightarrow> [Item hf (FString s) []])"

text \<open>Lines 282--334: the children of the subtree "Model Context Protocol".\<close>

definition mcp_items :: "mcp_json_data \<Rightarrow> tree_item list" where
  "mcp_items d =
     string_item Hf_mcp_version (jsonrpc d) @
     (case method_str d of
        None \<Rightarrow> []
      | Some name \<Rightarrow>
          [Item Hf_mcp_method (FString name)
             (case get_method_description (Some name) of
                None \<Rightarrow> []
              | Some method_desc \<Rightarrow> '' ('' @ method_desc @ '')'')]) @
     string_item Hf_mcp_id (id_str d) @
     (if encrypted d then
        [Subtree ''Encryption''
           (Item Hf_mcp_encrypted (FBool True) [] #
            string_item Hf_mcp_ciphertext (ciphertext d) @
            string_item Hf_mcp_iv (iv d) @
            string_item Hf_mcp_ratchet_header (ratchet_header d))]
      else []) @
     string_item Hf_mcp_params (params d) @
     string_item Hf_mcp_result (result d) @
     (if error_code d \<noteq> 0 then [Item Hf_mcp_error_code (FInt (error_code d)) []] else []) @
     string_item Hf_mcp_error_message (error_message d) @
     string_item Hf_mcp_agent_id (agent_id d)"

text \<open>Lines 336--348: the column writes.\<close>

definition mcp_cols :: "mcp_json_data \<Rightarrow> col_op list" where
  "mcp_cols d =
     Col_set_protocol ''MCP'' #
     (case method_str d of
        None \<Rightarrow> []
      | Some name \<Rightarrow>
          Col_add_info (''MCP '' @ name) #
          (if encrypted d then [Col_append_info '' (Encrypted)''] else [])) @
     (if error_code d \<noteq> 0 then
        [Col_append_info ('' [ERROR '' @ show_int (error_code d) @ '']'')]
      else [])"

subsection \<open>\<open>dissect_mcp_websocket\<close> (lines 222--357)\<close>

text \<open>
  The conversion of the payload bytes to a C string (\<open>tvb_get_string_enc\<close> with
  \<open>ENC_ASCII\<close>, also behind the string item of the payload) belongs to the framework and
  is the parameter \<open>dec\<close>. The result 0 with nothing added is the early \<open>return 0\<close>.
\<close>

definition ws_items :: "ws_header \<Rightarrow> tree_item list" where
  "ws_items h =
     [Item Hf_ws_opcode (FUInt (unat (opcode h)))
        ('' ('' @ (if opcode h = 1 then ''Text'' else ''Binary'') @ '')''),
      Item Hf_ws_fin (FBool (fin h \<noteq> 0)) [],
      Item Hf_ws_payload_length (FUInt (unat (payload_len h))) []]"

definition dissect_mcp_websocket :: "(tvbuff \<Rightarrow> string) \<Rightarrow> tvbuff \<Rightarrow> fault + dissection" where
  "dissect_mcp_websocket dec tvb =
     and_then (parse_ws_header tvb) (\<lambda>hd.
       case hd of
         None \<Rightarrow> Inr \<lparr>ret = 0, tree = [], cols = []\<rparr>
       | Some h \<Rightarrow>
           let r = sint (offset h + payload_len h) in
           if payload_captured tvb h then
             and_then (tvb_new_subset_length tvb (offset h) (payload_len h)) (\<lambda>payload_tvb.
               let payload_item = Item Hf_ws_payload (FString (dec payload_tvb)) [] in
               if opcode h = 1 then
                 and_then (parse_json_rpc (dec payload_tvb) json_data_zero) (\<lambda>json_data.
                   if (case jsonrpc json_data of None \<Rightarrow> False | Some v \<Rightarrow> v = ''2.0'') then
                     Inr \<lparr>ret = r,
                          tree = [Subtree ''MCP WebSocket''
                                   (ws_items h @
                                    [payload_item,
                                     Subtree ''Model Context Protocol'' (mcp_items json_data)])],
                          cols = mcp_cols json_data\<rparr>
                   else
                     Inr \<lparr>ret = r,
                          tree = [Subtree ''MCP WebSocket'' (ws_items h @ [payload_item])],
                          cols = []\<rparr>)
               else
                 Inr \<lparr>ret = r,
                      tree = [Subtree ''MCP WebSocket'' (ws_items h @ [payload_item])],
                      cols = []\<rparr>)
           else
             Inr \<lparr>ret = r, tree = [Subtree ''MCP WebSocket'' (ws_items h)], cols = []\<rparr>)"

text \<open>The bytes of an ASCII text, one character per byte, for concrete frames.\<close>

definition ascii_chars :: "tvbuff \<Rightarrow> string" where
  "ascii_chars bs = map (\<lambda>b. char_of (unat b)) bs"

subsection \<open>The first textual occurrence of a key\<close>

text \<open>
  The specification speaks of the first textual occurrence of a quoted key in a text.
  \<open>first_occurrence key s\<close> is the least index at which \<open>key\<close> begins in \<open>s\<close>; it follows
  the words of the specification and is compared with \<open>strstr\<close> below.
\<close>

fun is_prefix :: "string \<Rightarrow> string \<Rightarrow> bool" where
  "is_prefix [] ys = True"
| "is_prefix (x # xs) [] = False"
| "is_prefix (x # xs) (y # ys) = (x = y \<and> is_prefix xs ys)"

fun first_occurrence :: "string \<Rightarrow> string \<Rightarrow> nat option" where
  "first_occurrence key [] = (if key = [] then Some 0 else None)"
| "first_occurrence key (x # xs) =
     (if is_prefix key (x # xs) then Some 0 else map_option Suc (first_occurrence key xs))"

subsection \<open>The literal \<open>true\<close> behind the first occurrence of a quoted name\<close>

text \<open>
  In the words of the specification's scan: take the first textual occurrence of the
  quoted name in the text (wherever it stands, as a key or as a value, at any depth), go
  to the next colon from there, skip spaces and tabs behind the colon, and ask whether
  the four characters \<open>true\<close> follow. \<open>true_literal_follows name s\<close> says so for the text
  \<open>s\<close>; it is compared with the test of lines 436--442 below.
\<close>

fun first_index :: "char \<Rightarrow> string \<Rightarrow> nat option" where
  "first_index c [] = None"
| "first_index c (x # xs) = (if x = c then Some 0 else map_option Suc (first_index c xs))"

definition is_blank :: "char \<Rightarrow> bool" where
  "is_blank c = (c = CHR '' '' \<or> c = CHR 0x09)"

definition true_literal_follows :: "string \<Rightarrow> string \<Rightarrow> bool" where
  "true_literal_follows name s =
     (case first_occurrence (dquote # name @ [dquote]) s of
        None \<Rightarrow> False
      | Some i \<Rightarrow>
          (case first_index (CHR '':'') (drop i s) of
             None \<Rightarrow> False
           | Some j \<Rightarrow> is_prefix ''true'' (dropWhile is_blank (drop (i + j + 1) s))))"

subsection \<open>A byte of the copy before and after an overwrite\<close>

text \<open>
  The only bytes \<open>parse_json_rpc\<close> leaves changed in its copy are closing braces written
  over a comma, over a closing brace or over the terminator. \<open>overwritten x y\<close> relates a
  byte \<open>x\<close> of the original copy to the byte \<open>y\<close> that may stand in its place later.
\<close>

definition overwritten :: "char \<Rightarrow> char \<Rightarrow> bool" where
  "overwritten x y = (y = x \<or> (y = CHR ''}'' \<and> (x = CHR '','' \<or> x = NUL)))"

section \<open>Properties of the frame header\<close>

lemma and_then_Inr [simp]: "and_then (Inr x) f = f x"
  by (simp add: and_then_def)

lemma and_then_Inl [simp]: "and_then (Inl e) f = Inl e"
  by (simp add: and_then_def)

lemma unat_ucast_8_32: "unat (ucast (x :: 8 word) :: 32 word) = unat x"
proof -
  have "unat x < 2 ^ 8"
    using unsigned_less [of x, where 'a = nat] by simp
  then have "unat x < 2 ^ 32" by simp
  then show ?thesis
    by (simp add: unsigned_ucast_eq take_bit_nat_eq_self)
qed

lemma ucast_of_nat_64_32: "(ucast (of_nat n :: 64 word) :: 32 word) = of_nat n"
  by (rule bit_word_eqI) (auto simp: bit_simps)

lemma header_too_short: "length tvb < 2 \<Longrightarrow> parse_ws_header tvb = Inr None"
  by (simp add: parse_ws_header_def tvb_captured_length_def)

lemma header_short_form:
  assumes "2 \<le> length tvb" and "unat (tvb ! 1 AND 0x7F) \<le> 125"
  shows "parse_ws_header tvb =
           Inr (Some \<lparr>fin = drop_bit 7 (tvb ! 0 AND 0x80), opcode = tvb ! 0 AND 0x0F,
                      offset = 2, payload_len = ucast (tvb ! 1 AND 0x7F)\<rparr>)"
proof -
  have u: "unat (ucast (tvb ! 1 AND 0x7F) :: 32 word) = unat (tvb ! 1 AND 0x7F)"
    by (rule unat_ucast_8_32)
  have n126: "(ucast (tvb ! 1 AND 0x7F) :: 32 word) \<noteq> 126"
  proof
    assume "(ucast (tvb ! 1 AND 0x7F) :: 32 word) = 126"
    then have "unat (ucast (tvb ! 1 AND 0x7F) :: 32 word) = 126" by simp
    with u assms(2) show False by simp
  qed
  have n127: "(ucast (tvb ! 1 AND 0x7F) :: 32 word) \<noteq> 127"
  proof
    assume "(ucast (tvb ! 1 AND 0x7F) :: 32 word) = 127"
    then have "unat (ucast (tvb ! 1 AND 0x7F) :: 32 word) = 127" by simp
    with u assms(2) show False by simp
  qed
  from assms(1) have "tvb \<noteq> []" by auto
  with assms(1) n126 n127 show ?thesis
    by (simp add: parse_ws_header_def tvb_captured_length_def tvb_get_guint8_def Let_def)
qed

lemma header_16_bit_form:
  assumes "b1 AND 0x7F = 126"
  shows "parse_ws_header (b0 # b1 # 0x01 # 0x00 # rest) =
           Inr (Some \<lparr>fin = drop_bit 7 (b0 AND 0x80), opcode = b0 AND 0x0F,
                      offset = 4, payload_len = 256\<rparr>)"
  using assms
  by (simp add: parse_ws_header_def tvb_captured_length_def tvb_get_guint8_def Let_def
      tvb_get_ntohs_def)

lemma header_64_bit_form:
  assumes "10 \<le> length tvb" and "tvb ! 1 AND 0x7F = 127"
  shows "parse_ws_header tvb =
           Inr (Some \<lparr>fin = drop_bit 7 (tvb ! 0 AND 0x80), opcode = tvb ! 0 AND 0x0F,
                      offset = 10, payload_len = of_nat (be_word (take 8 (drop 2 tvb)))\<rparr>)"
proof -
  from assms(1) have "tvb \<noteq> []" by auto
  with assms show ?thesis
    by (simp add: parse_ws_header_def tvb_captured_length_def tvb_get_guint8_def Let_def
        tvb_get_ntoh64_def ucast_of_nat_64_32)
qed

lemma header_64_bit_too_short:
  assumes "2 \<le> length tvb" and "length tvb < 10" and "tvb ! 1 AND 0x7F = 127"
  shows "parse_ws_header tvb = Inr None"
proof -
  from assms(1) have "tvb \<noteq> []" by auto
  with assms show ?thesis
    by (simp add: parse_ws_header_def tvb_captured_length_def tvb_get_guint8_def Let_def)
qed

text \<open>
  C5. A buffer of fewer than two bytes is rejected (\<open>return 0\<close>, nothing added to the tree).
  A buffer of at least two bytes whose 7-bit length code \<open>L\<close> is at most 125 has a header
  of 2 bytes and the payload length \<open>L\<close>. A header with length code 126 followed by the
  bytes \<open>0x01 0x00\<close> has a header of 4 bytes and the payload length 256.
\<close>

theorem C5_header_lengths:
  "(length tvb < 2 \<longrightarrow>
      parse_ws_header tvb = Inr None \<and>
      dissect_mcp_websocket dec tvb = Inr \<lparr>ret = 0, tree = [], cols = []\<rparr>) \<and>
   (2 \<le> length tvb \<and> unat (tvb ! 1 AND 0x7F) \<le> 125 \<longrightarrow>
      (\<exists>h. parse_ws_header tvb = Inr (Some h) \<and> offset h = 2 \<and>
           unat (payload_len h) = unat (tvb ! 1 AND 0x7F))) \<and>
   (b1 AND 0x7F = 126 \<longrightarrow>
      (\<exists>h. parse_ws_header (b0 # b1 # 0x01 # 0x00 # rest) = Inr (Some h) \<and> offset h = 4 \<and>
           payload_len h = 256))"
proof (intro conjI impI)
  assume "length tvb < 2"
  then show "parse_ws_header tvb = Inr None" by (rule header_too_short)
  then show "dissect_mcp_websocket dec tvb = Inr \<lparr>ret = 0, tree = [], cols = []\<rparr>"
    by (simp add: dissect_mcp_websocket_def)
next
  assume "2 \<le> length tvb \<and> unat (tvb ! 1 AND 0x7F) \<le> 125"
  then have "parse_ws_header tvb =
           Inr (Some \<lparr>fin = drop_bit 7 (tvb ! 0 AND 0x80), opcode = tvb ! 0 AND 0x0F,
                      offset = 2, payload_len = ucast (tvb ! 1 AND 0x7F)\<rparr>)"
    by (simp add: header_short_form)
  then show "\<exists>h. parse_ws_header tvb = Inr (Some h) \<and> offset h = 2 \<and>
           unat (payload_len h) = unat (tvb ! 1 AND 0x7F)"
    by (simp add: unat_ucast_8_32)
next
  assume "b1 AND 0x7F = 126"
  then show "\<exists>h. parse_ws_header (b0 # b1 # 0x01 # 0x00 # rest) = Inr (Some h) \<and>
           offset h = 4 \<and> payload_len h = 256"
    by (simp add: header_16_bit_form)
qed

theorem C5_header_lengths_witness:
  "parse_ws_header [0x81] = Inr None \<and>
   dissect_mcp_websocket ascii_chars [0x81] = Inr \<lparr>ret = 0, tree = [], cols = []\<rparr> \<and>
   (\<exists>h. parse_ws_header [0x81, 0x05] = Inr (Some h) \<and> offset h = 2 \<and>
        unat (payload_len h) = 5) \<and>
   (\<exists>h. parse_ws_header [0x81, 0xFE, 0x01, 0x00] = Inr (Some h) \<and> offset h = 4 \<and>
        payload_len h = 256)"
  using C5_header_lengths [of "[0x81]" ascii_chars 0 0 "[]"]
    C5_header_lengths [of "[0x81, 0x05]" ascii_chars 0 0 "[]"]
    C5_header_lengths [of "[]" ascii_chars "0xFE" "0x81" "[]"]
  by simp

text \<open>
  C6 (as amended). With length code 127 and at least 10 bytes the next 8 bytes are read
  as a big-endian number and the payload length is that number modulo \<open>2 ^ 32\<close> (the low
  32 bits: the cast wraps, it neither saturates nor fails); with length code 127 and fewer
  than 10 bytes the buffer is rejected.
\<close>

theorem C6_length_127_keeps_low_32_bits:
  "(10 \<le> length tvb \<and> tvb ! 1 AND 0x7F = 127 \<longrightarrow>
      (\<exists>h. parse_ws_header tvb = Inr (Some h) \<and> offset h = 10 \<and>
           unat (payload_len h) = be_word (take 8 (drop 2 tvb)) mod 2 ^ 32)) \<and>
   (2 \<le> length tvb \<and> length tvb < 10 \<and> tvb ! 1 AND 0x7F = 127 \<longrightarrow>
      parse_ws_header tvb = Inr None)"
proof (intro conjI impI)
  assume "10 \<le> length tvb \<and> tvb ! 1 AND 0x7F = 127"
  then have "parse_ws_header tvb =
           Inr (Some \<lparr>fin = drop_bit 7 (tvb ! 0 AND 0x80), opcode = tvb ! 0 AND 0x0F,
                      offset = 10, payload_len = of_nat (be_word (take 8 (drop 2 tvb)))\<rparr>)"
    by (simp add: header_64_bit_form)
  then show "\<exists>h. parse_ws_header tvb = Inr (Some h) \<and> offset h = 10 \<and>
           unat (payload_len h) = be_word (take 8 (drop 2 tvb)) mod 2 ^ 32"
    by (simp add: unat_of_nat)
next
  assume "2 \<le> length tvb \<and> length tvb < 10 \<and> tvb ! 1 AND 0x7F = 127"
  then show "parse_ws_header tvb = Inr None"
    by (simp add: header_64_bit_too_short)
qed

theorem C6_length_127_keeps_low_32_bits_witness:
  "(\<exists>h. parse_ws_header [0x81, 0x7F, 0, 0, 0, 0, 0, 0, 0x01, 0x2C] = Inr (Some h) \<and>
        offset h = 10 \<and> unat (payload_len h) = 300) \<and>
   parse_ws_header [0x81, 0x7F, 0, 0, 0, 0, 0, 0, 0x01] = Inr None"
  using C6_length_127_keeps_low_32_bits [of "[0x81, 0x7F, 0, 0, 0, 0, 0, 0, 0x01, 0x2C]"]
    C6_length_127_keeps_low_32_bits [of "[0x81, 0x7F, 0, 0, 0, 0, 0, 0, 0x01]"]
  by simp

text \<open>
  C6, as stated, fails: the 64-bit length \<open>2 ^ 32 + 5\<close> is accepted and becomes the
  payload length 5.
\<close>

theorem C6_silent_wrap_counterexample:
  "be_word (take 8 (drop 2 [0x81, 0x7F, 0, 0, 0, 1, 0, 0, 0, 5])) = 2 ^ 32 + 5 \<and>
   parse_ws_header [0x81, 0x7F, 0, 0, 0, 1, 0, 0, 0, 5] =
     Inr (Some \<lparr>fin = 1, opcode = 1, offset = 10, payload_len = 5\<rparr>)"
  by (simp add: parse_ws_header_def tvb_captured_length_def tvb_get_guint8_def Let_def
      tvb_get_ntoh64_def)

lemma parse_ws_header_no_fault: "\<exists>r. parse_ws_header tvb = Inr r"
proof (cases "length tvb < 2")
  case True
  then show ?thesis by (simp add: header_too_short)
next
  case False
  then have "tvb \<noteq> []" by auto
  with False show ?thesis
    by (simp add: parse_ws_header_def tvb_captured_length_def tvb_get_guint8_def Let_def
        tvb_get_ntohs_def tvb_get_ntoh64_def)
qed

lemma truncated_payload_left_alone:
  assumes "parse_ws_header tvb = Inr (Some h)"
    and "length tvb < unat (offset h) + unat (payload_len h)"
    and "unat (offset h) + unat (payload_len h) < 2 ^ 32"
  shows "\<not> payload_captured tvb h"
    and "dissect_mcp_websocket dec tvb =
           Inr \<lparr>ret = sint (offset h + payload_len h),
                tree = [Subtree ''MCP WebSocket'' (ws_items h)], cols = []\<rparr>"
proof -
  from assms(3) have "unat (offset h + payload_len h) = unat (offset h) + unat (payload_len h)"
    by (simp add: unat_add_lem [THEN iffD1])
  with assms(2) show "\<not> payload_captured tvb h"
    by (simp add: payload_captured_def tvb_captured_length_def)
  with assms(1) show "dissect_mcp_websocket dec tvb =
           Inr \<lparr>ret = sint (offset h + payload_len h),
                tree = [Subtree ''MCP WebSocket'' (ws_items h)], cols = []\<rparr>"
    by (simp add: dissect_mcp_websocket_def Let_def)
qed

text \<open>
  C1, at the input where the code departs from it. The frame announces
  \<open>2 ^ 32 - 1\<close> payload bytes of which none is captured; the 32-bit sum
  \<open>offset + payload_len\<close> wraps to 9, the guard of line 267 holds, and the payload branch
  is entered (where the framework refuses the length).
\<close>

theorem C1_wrapped_sum_passes_guard:
  "parse_ws_header [0x81, 0x7F, 0, 0, 0, 0, 0xFF, 0xFF, 0xFF, 0xFF] =
     Inr (Some \<lparr>fin = 1, opcode = 1, offset = 10, payload_len = 0xFFFFFFFF\<rparr>) \<and>
   length [0x81, 0x7F, 0, 0, 0, 0, 0xFF, 0xFF, 0xFF, 0xFF :: 8 word]
     < unat (10 :: 32 word) + unat (0xFFFFFFFF :: 32 word) \<and>
   payload_captured [0x81, 0x7F, 0, 0, 0, 0, 0xFF, 0xFF, 0xFF, 0xFF]
     \<lparr>fin = 1, opcode = 1, offset = 10, payload_len = 0xFFFFFFFF\<rparr> \<and>
   dissect_mcp_websocket ascii_chars [0x81, 0x7F, 0, 0, 0, 0, 0xFF, 0xFF, 0xFF, 0xFF] =
     Inl FrameworkException"
  by (simp add: dissect_mcp_websocket_def parse_ws_header_def tvb_captured_length_def
      tvb_get_guint8_def Let_def tvb_get_ntoh64_def payload_captured_def
      tvb_new_subset_length_def)

section \<open>Properties of the field extractor\<close>

subsection \<open>Scans and copies\<close>

lemma and_then_InrE:
  assumes "and_then r f = Inr y"
  obtains x where "r = Inr x" and "f x = Inr y"
  using assms by (cases r) (simp_all add: and_then_def)

lemma strchr_l_Some:
  "strchr_l c xs = Inr (Some i) \<Longrightarrow> i < length xs \<and> xs ! i = c"
proof (induction xs arbitrary: i)
  case Nil
  then show ?case by simp
next
  case (Cons x xs)
  show ?case
  proof (cases "x = c")
    case True
    with Cons.prems show ?thesis by simp
  next
    case False
    with Cons.prems obtain j where "strchr_l c xs = Inr (Some j)" and "i = Suc j"
      by (auto simp: and_then_def split: if_splits sum.splits)
    with Cons.IH [of j] show ?thesis by simp
  qed
qed

lemma c_strchr_Some:
  "c_strchr m p c = Inr (Some e) \<Longrightarrow> p \<le> e \<and> e < length m \<and> m ! e = c"
  by (auto simp: c_strchr_def and_then_def split: sum.splits dest!: strchr_l_Some)








subsection \<open>\<open>strstr\<close> on a terminated string finds the first occurrence\<close>

lemma lit_at_terminated:
  "NUL \<notin> set key \<Longrightarrow> lit_at key (s @ [NUL]) = Inr (is_prefix key s)"
proof (induction key arbitrary: s)
  case Nil
  then show ?case by simp
next
  case (Cons k ks)
  then show ?case by (cases s) auto
qed

lemma strstr_l_terminated:
  assumes "NUL \<notin> set key" and "key \<noteq> []"
  shows "NUL \<notin> set s \<Longrightarrow> strstr_l key (s @ [NUL]) = Inr (first_occurrence key s)"
proof (induction s)
  case Nil
  from assms show ?case
    using lit_at_terminated [of key "[]"] by (cases key) simp_all
next
  case (Cons x xs)
  from assms(1) have "lit_at key ((x # xs) @ [NUL]) = Inr (is_prefix key (x # xs))"
    by (rule lit_at_terminated)
  with Cons show ?case by auto
qed

lemma c_strstr_terminated:
  assumes "NUL \<notin> set key" and "key \<noteq> []" and "NUL \<notin> set s"
  shows "c_strstr (s @ [NUL]) 0 key = Inr (first_occurrence key s)"
  using strstr_l_terminated [OF assms] by (simp add: c_strstr_def option.map_ident)


subsection \<open>The agent identifier is cut out of the copied parameters\<close>




subsection \<open>What each step leaves alone\<close>

lemma extract_jsonrpc_frame:
  assumes "extract_jsonrpc (m, d) = Inr (m', d')"
  shows "encrypted d' = encrypted d \<and> ciphertext d' = ciphertext d \<and> iv d' = iv d \<and>
         ratchet_header d' = ratchet_header d \<and> params d' = params d \<and>
         agent_id d' = agent_id d"
  using assms
  by (auto simp: extract_jsonrpc_def elim!: and_then_InrE split: option.splits)

lemma extract_method_frame:
  assumes "extract_method (m, d) = Inr (m', d')"
  shows "encrypted d' = encrypted d \<and> ciphertext d' = ciphertext d \<and> iv d' = iv d \<and>
         ratchet_header d' = ratchet_header d \<and> params d' = params d \<and>
         agent_id d' = agent_id d"
  using assms
  by (auto simp: extract_method_def elim!: and_then_InrE split: option.splits)

lemma extract_id_frame:
  assumes "extract_id (m, d) = Inr (m', d')"
  shows "encrypted d' = encrypted d \<and> ciphertext d' = ciphertext d \<and> iv d' = iv d \<and>
         ratchet_header d' = ratchet_header d \<and> params d' = params d \<and>
         agent_id d' = agent_id d"
  using assms
  by (auto simp: extract_id_def elim!: and_then_InrE split: option.splits)

lemma extract_result_frame:
  assumes "extract_result (m, d) = Inr (m', d')"
  shows "encrypted d' = encrypted d \<and> ciphertext d' = ciphertext d \<and> iv d' = iv d \<and>
         ratchet_header d' = ratchet_header d \<and> params d' = params d \<and>
         agent_id d' = agent_id d"
  using assms
  by (auto simp: extract_result_def elim!: and_then_InrE split: option.splits)

lemma extract_error_code_frame:
  assumes "extract_error_code (m, d) = Inr (m', d')"
  shows "encrypted d' = encrypted d \<and> ciphertext d' = ciphertext d \<and> iv d' = iv d \<and>
         ratchet_header d' = ratchet_header d \<and> params d' = params d \<and>
         agent_id d' = agent_id d"
  using assms
  by (auto simp: extract_error_code_def elim!: and_then_InrE split: option.splits if_splits)

lemma extract_error_message_frame:
  assumes "extract_error_message (m, d) = Inr (m', d')"
  shows "encrypted d' = encrypted d \<and> ciphertext d' = ciphertext d \<and> iv d' = iv d \<and>
         ratchet_header d' = ratchet_header d \<and> params d' = params d \<and>
         agent_id d' = agent_id d"
  using assms
  by (auto simp: extract_error_message_def elim!: and_then_InrE split: option.splits)

lemma extract_params_frame:
  assumes "extract_params (m, d) = Inr (m', d')"
  shows "encrypted d' = encrypted d \<and> ciphertext d' = ciphertext d \<and> iv d' = iv d \<and>
         ratchet_header d' = ratchet_header d"
  using assms
  by (auto simp: extract_params_def Let_def elim!: and_then_InrE split: option.splits)


lemma extract_encryption_gated:
  assumes "extract_encryption (m, d) = Inr (m', d')"
  shows "encrypted d' \<or>
         (encrypted d' = encrypted d \<and> ciphertext d' = ciphertext d \<and> iv d' = iv d \<and>
          ratchet_header d' = ratchet_header d)"
  using assms
  by (auto simp: extract_encryption_def Let_def elim!: and_then_InrE
      split: option.splits if_splits)



lemma parse_json_rpc_steps:
  assumes "parse_json_rpc t d0 = Inr d"
  obtains m1 d1 m2 d2 m3 d3 m4 d4 m5 d5 m6 d6 m7 d7 m8 where
    "extract_jsonrpc (json_copy_of t, d0) = Inr (m1, d1)"
    "extract_method (m1, d1) = Inr (m2, d2)"
    "extract_id (m2, d2) = Inr (m3, d3)"
    "extract_encryption (m3, d3) = Inr (m4, d4)"
    "extract_params (m4, d4) = Inr (m5, d5)"
    "extract_result (m5, d5) = Inr (m6, d6)"
    "extract_error_code (m6, d6) = Inr (m7, d7)"
    "extract_error_message (m7, d7) = Inr (m8, d)"
proof -
  from assms obtain s1 s2 s3 s4 s5 s6 s7 s8 where
    "extract_jsonrpc (json_copy_of t, d0) = Inr s1"
    "extract_method s1 = Inr s2"
    "extract_id s2 = Inr s3"
    "extract_encryption s3 = Inr s4"
    "extract_params s4 = Inr s5"
    "extract_result s5 = Inr s6"
    "extract_error_code s6 = Inr s7"
    "extract_error_message s7 = Inr s8" "d = snd s8"
    unfolding parse_json_rpc_def by (elim and_then_InrE) auto
  then show ?thesis
    by (intro that [of "fst s1" "snd s1" "fst s2" "snd s2" "fst s3" "snd s3" "fst s4" "snd s4"
      "fst s5" "snd s5" "fst s6" "snd s6" "fst s7" "snd s7" "fst s8"]) simp_all
qed

lemma parse_json_rpc_gated:
  assumes "parse_json_rpc t json_data_zero = Inr d"
  shows "encrypted d \<or> (ciphertext d = None \<and> iv d = None \<and> ratchet_header d = None)"
proof -
  from assms obtain m1 d1 m2 d2 m3 d3 m4 d4 m5 d5 m6 d6 m7 d7 m8 where
    s: "extract_jsonrpc (json_copy_of t, json_data_zero) = Inr (m1, d1)"
    "extract_method (m1, d1) = Inr (m2, d2)"
    "extract_id (m2, d2) = Inr (m3, d3)"
    "extract_encryption (m3, d3) = Inr (m4, d4)"
    "extract_params (m4, d4) = Inr (m5, d5)"
    "extract_result (m5, d5) = Inr (m6, d6)"
    "extract_error_code (m6, d6) = Inr (m7, d7)"
    "extract_error_message (m7, d7) = Inr (m8, d)"
    by (rule parse_json_rpc_steps)
  have before: "encrypted d3 = False \<and> ciphertext d3 = None \<and> iv d3 = None \<and>
      ratchet_header d3 = None"
    using extract_jsonrpc_frame [OF s(1)] extract_method_frame [OF s(2)]
      extract_id_frame [OF s(3)]
    by (simp add: json_data_zero_def)
  have after: "encrypted d = encrypted d4 \<and> ciphertext d = ciphertext d4 \<and> iv d = iv d4 \<and>
      ratchet_header d = ratchet_header d4"
    using extract_params_frame [OF s(5)] extract_result_frame [OF s(6)]
      extract_error_code_frame [OF s(7)] extract_error_message_frame [OF s(8)]
    by simp
  from extract_encryption_gated [OF s(4)] before after show ?thesis
    by auto
qed



subsection \<open>Scans see through the overwritten bytes\<close>

text \<open>
  A scan that ends without a fault on a copy in which some commas, closing braces or the
  terminator have become closing braces gives the same result on the original copy,
  provided the key or character looked for is none of these bytes.
\<close>

lemma lit_at_overwritten:
  assumes "\<forall>c\<in>set k. c \<noteq> CHR ''}'' \<and> c \<noteq> CHR '','' \<and> c \<noteq> NUL"
  shows "list_all2 overwritten xs ys \<Longrightarrow> lit_at k ys = Inr b \<Longrightarrow> lit_at k xs = Inr b"
  using assms
proof (induction k arbitrary: xs ys)
  case Nil
  then show ?case by simp
next
  case (Cons c k)
  from Cons.prems(2) obtain y ys' where ys: "ys = y # ys'" by (cases ys) auto
  with Cons.prems(1) obtain x xs' where xs: "xs = x # xs'" and
    r: "overwritten x y" "list_all2 overwritten xs' ys'"
    by (cases xs) auto
  show ?case
  proof (cases "y = c")
    case True
    with r(1) Cons.prems(3) have "x = c" by (auto simp: overwritten_def)
    with True Cons.prems Cons.IH [of xs' ys'] r(2) xs ys show ?thesis by simp
  next
    case False
    with r(1) Cons.prems(3) have "x \<noteq> c" by (auto simp: overwritten_def)
    with False Cons.prems(2) xs ys show ?thesis by simp
  qed
qed

lemma NUL_only_last_tail:
  "NUL \<notin> set (butlast (x # xs)) \<Longrightarrow> NUL \<notin> set (butlast xs)"
  by (cases xs) auto

lemma NUL_first_then_single:
  "NUL \<notin> set (butlast (NUL # xs)) \<Longrightarrow> xs = []"
  by (cases xs) auto

lemma strstr_l_overwritten:
  assumes "\<forall>c\<in>set k. c \<noteq> CHR ''}'' \<and> c \<noteq> CHR '','' \<and> c \<noteq> NUL"
  shows "list_all2 overwritten xs ys \<Longrightarrow> NUL \<notin> set (butlast xs) \<Longrightarrow>
         strstr_l k ys = Inr r \<Longrightarrow> strstr_l k xs = Inr r"
proof (induction ys arbitrary: xs r)
  case Nil
  then show ?case by simp
next
  case (Cons y ys')
  from Cons.prems(1) obtain x xs' where xs: "xs = x # xs'" and
    rel: "overwritten x y" "list_all2 overwritten xs' ys'"
    by (cases xs) auto
  from Cons.prems(3) obtain hit where hit: "lit_at k (y # ys') = Inr hit"
    by (auto elim!: and_then_InrE)
  with Cons.prems(1) xs have hit': "lit_at k (x # xs') = Inr hit"
    using lit_at_overwritten [OF assms, of "x # xs'" "y # ys'" hit] by simp
  show ?case
  proof (cases hit)
    case True
    with hit hit' Cons.prems(3) xs show ?thesis by simp
  next
    case False
    show ?thesis
    proof (cases "y = NUL")
      case True
      with rel(1) have "x = NUL" by (auto simp: overwritten_def NUL_def)
      with True False hit hit' Cons.prems(3) xs show ?thesis by simp
    next
      case yn: False
      with False hit Cons.prems(3) obtain r' where
        r': "strstr_l k ys' = Inr r'" "r = map_option Suc r'"
        by (auto elim!: and_then_InrE)
      have "x \<noteq> NUL"
      proof
        assume "x = NUL"
        with Cons.prems(2) xs have "xs' = []" by (auto split: if_splits)
        with rel(2) have "ys' = []" by simp
        with r'(1) show False by simp
      qed
      moreover from Cons.prems(2) xs have "NUL \<notin> set (butlast xs')"
        by (auto split: if_splits)
      then have "strstr_l k xs' = Inr r'"
        using Cons.IH [OF rel(2) _ r'(1)] by simp
      ultimately show ?thesis using False hit' r'(2) xs by simp
    qed
  qed
qed

lemma strchr_l_overwritten:
  assumes "c \<noteq> CHR ''}''" "c \<noteq> CHR '',''" "c \<noteq> NUL"
  shows "list_all2 overwritten xs ys \<Longrightarrow> NUL \<notin> set (butlast xs) \<Longrightarrow>
         strchr_l c ys = Inr r \<Longrightarrow> strchr_l c xs = Inr r"
proof (induction ys arbitrary: xs r)
  case Nil
  then show ?case by simp
next
  case (Cons y ys')
  from Cons.prems(1) obtain x xs' where xs: "xs = x # xs'" and
    rel: "overwritten x y" "list_all2 overwritten xs' ys'"
    by (cases xs) auto
  show ?case
  proof (cases "y = c")
    case True
    with rel(1) assms have "x = c" by (auto simp: overwritten_def)
    with True Cons.prems(3) xs show ?thesis by simp
  next
    case False
    with rel(1) assms have xc: "x \<noteq> c" by (auto simp: overwritten_def)
    show ?thesis
    proof (cases "y = NUL")
      case True
      with rel(1) have "x = NUL" by (auto simp: overwritten_def NUL_def)
      with True False xc Cons.prems(3) xs show ?thesis by simp
    next
      case yn: False
      with False Cons.prems(3) obtain r' where
        r': "strchr_l c ys' = Inr r'" "r = map_option Suc r'"
        by (auto elim!: and_then_InrE)
      have "x \<noteq> NUL"
      proof
        assume "x = NUL"
        with Cons.prems(2) xs have "xs' = []" by (auto split: if_splits)
        with rel(2) have "ys' = []" by simp
        with r'(1) show False by simp
      qed
      moreover from Cons.prems(2) xs have "NUL \<notin> set (butlast xs')"
        by (auto split: if_splits)
      then have "strchr_l c xs' = Inr r'"
        using Cons.IH [OF rel(2) _ r'(1)] by simp
      ultimately show ?thesis using xc r'(2) xs by simp
    qed
  qed
qed

lemma skip_ws_l_overwritten:
  "list_all2 overwritten xs ys \<Longrightarrow> skip_ws_l ys = Inr n \<Longrightarrow> skip_ws_l xs = Inr n"
proof (induction ys arbitrary: xs n)
  case Nil
  then show ?case by simp
next
  case (Cons y ys')
  from Cons.prems(1) obtain x xs' where xs: "xs = x # xs'" and
    rel: "overwritten x y" "list_all2 overwritten xs' ys'"
    by (cases xs) auto
  show ?case
  proof (cases "y = CHR '' '' \<or> y = CHR 0x09")
    case True
    with rel(1) have "x = y" by (auto simp: overwritten_def)
    moreover from True Cons.prems(2) obtain n' where
      "skip_ws_l ys' = Inr n'" "n = Suc n'"
      by (auto elim!: and_then_InrE)
    ultimately show ?thesis using True Cons.IH [OF rel(2)] xs by auto
  next
    case False
    with rel(1) have "\<not> (x = CHR '' '' \<or> x = CHR 0x09)"
      by (auto simp: overwritten_def NUL_def)
    with False Cons.prems(2) xs show ?thesis by simp
  qed
qed

lemma overwritten_drop:
  assumes "list_all2 overwritten m m'" and "NUL \<notin> set (butlast m)"
  shows "list_all2 overwritten (drop p m) (drop p m') \<and> NUL \<notin> set (butlast (drop p m))"
proof -
  have "set (drop p (butlast m)) \<subseteq> set (butlast m)" by (rule set_drop_subset)
  with assms(2) have "NUL \<notin> set (butlast (drop p m))"
    by (auto simp: butlast_drop)
  with assms(1) show ?thesis by simp
qed

lemma value_pos_overwritten:
  assumes rel: "list_all2 overwritten m m'" "NUL \<notin> set (butlast m)"
    and key: "\<forall>c\<in>set key. c \<noteq> CHR ''}'' \<and> c \<noteq> CHR '','' \<and> c \<noteq> NUL"
    and run: "value_pos m' key = Inr r"
  shows "value_pos m key = Inr r"
proof -
  have k: "\<forall>c\<in>set (dquote # key @ [dquote]). c \<noteq> CHR ''}'' \<and> c \<noteq> CHR '','' \<and> c \<noteq> NUL"
    using key by (auto simp: dquote_def NUL_def)
  from run obtain found where
    f: "c_strstr m' 0 (dquote # key @ [dquote]) = Inr found"
    by (auto simp: value_pos_def elim!: and_then_InrE)
  then have f': "c_strstr m 0 (dquote # key @ [dquote]) = Inr found"
    using strstr_l_overwritten [OF k, of m m'] rel
    by (auto simp: c_strstr_def elim!: and_then_InrE)
  show ?thesis
  proof (cases found)
    case None
    with f f' run show ?thesis by (simp add: value_pos_def)
  next
    case (Some p)
    with f run obtain colon where
      c: "c_strchr m' p (CHR '':'') = Inr colon"
      by (auto simp: value_pos_def elim!: and_then_InrE)
    then have c': "c_strchr m p (CHR '':'') = Inr colon"
      using strchr_l_overwritten [of "CHR '':''" "drop p m" "drop p m'"]
        overwritten_drop [OF rel, of p]
      by (auto simp: c_strchr_def NUL_def elim!: and_then_InrE)
    show ?thesis
    proof (cases colon)
      case None
      with Some f f' c c' run show ?thesis by (simp add: value_pos_def)
    next
      case q: (Some q)
      with Some f c run obtain pos where
        s: "skip_ws m' (q + 1) = Inr pos" and r: "r = Some pos"
        by (auto simp: value_pos_def elim!: and_then_InrE)
      then have "skip_ws m (q + 1) = Inr pos"
        using skip_ws_l_overwritten [of "drop (q + 1) m" "drop (q + 1) m'"]
          overwritten_drop [OF rel, of "q + 1"]
        by (auto simp: skip_ws_def elim!: and_then_InrE)
      with Some q f' c' r show ?thesis by (simp add: value_pos_def)
    qed
  qed
qed

lemma encrypted_flag_overwritten:
  assumes rel: "list_all2 overwritten m m'" "NUL \<notin> set (butlast m)"
    and run: "encrypted_flag m' = Inr b"
  shows "encrypted_flag m = Inr b"
proof -
  from run obtain vp where vp: "value_pos m' ''encrypted'' = Inr vp"
    by (auto simp: encrypted_flag_def elim!: and_then_InrE)
  with rel have vp': "value_pos m ''encrypted'' = Inr vp"
    by (intro value_pos_overwritten [of m m']) (simp_all add: NUL_def)
  show ?thesis
  proof (cases vp)
    case None
    with vp vp' run show ?thesis by (simp add: encrypted_flag_def)
  next
    case (Some pos)
    with vp run have "lit_at ''true'' (drop pos m') = Inr b"
      by (simp add: encrypted_flag_def)
    then have "lit_at ''true'' (drop pos m) = Inr b"
      using overwritten_drop [OF rel, of pos]
      by (intro lit_at_overwritten [of "''true''" "drop pos m" "drop pos m'"])
        (simp_all add: NUL_def)
    with Some vp' show ?thesis by (simp add: encrypted_flag_def)
  qed
qed

lemma list_all2_overwritten_refl: "list_all2 overwritten m m"
  by (simp add: list_all2_conv_all_nth overwritten_def)

lemma quoted_value_block:
  assumes "quoted_value m pos = Inr (m', v)"
  shows "m' = m"
proof (cases v)
  case None
  with assms show ?thesis
    by (auto simp: quoted_value_def elim!: and_then_InrE split: option.splits)
next
  case (Some s)
  with assms obtain e where e: "c_strchr m (pos + 1) dquote = Inr (Some e)"
    and m': "m' = m[e := NUL, e := dquote]"
    by (auto simp: quoted_value_def store_def elim!: and_then_InrE
        split: option.splits if_splits)
  from e have "e < length m" "m ! e = dquote" by (auto dest: c_strchr_Some)
  with m' show ?thesis by (simp add: list_update_same_conv)
qed

lemma string_field_block:
  assumes "string_field m key = Inr (m', v)"
  shows "m' = m"
  using assms
  by (auto simp: string_field_def elim!: and_then_InrE
      split: option.splits if_splits dest!: quoted_value_block)

lemma id_scan_l_stop:
  "id_scan_l xs = Inr n \<Longrightarrow>
     n < length xs \<and> (xs ! n = NUL \<or> xs ! n = CHR '','' \<or> xs ! n = CHR ''}'')"
proof (induction xs arbitrary: n)
  case Nil
  then show ?case by simp
next
  case (Cons x xs)
  show ?case
  proof (cases "x \<noteq> NUL \<and> x \<noteq> CHR '','' \<and> x \<noteq> CHR ''}''")
    case True
    with Cons.prems obtain k where "id_scan_l xs = Inr k" "n = Suc k"
      by (auto elim!: and_then_InrE)
    with Cons.IH [of k] show ?thesis by simp
  next
    case False
    with Cons.prems show ?thesis by auto
  qed
qed

lemma numeric_id_block:
  assumes "numeric_id m pos = Inr (m', v)"
  shows "list_all2 overwritten m m'"
proof (cases v)
  case None
  with assms have "m' = m"
    by (auto simp: numeric_id_def elim!: and_then_InrE split: if_splits)
  then show ?thesis by (simp add: list_all2_overwritten_refl)
next
  case (Some s)
  with assms obtain e where e: "id_scan m pos = Inr e"
    and m': "m' = m[e := NUL, e := CHR ''}'']" and el: "e < length m"
    by (auto simp: numeric_id_def store_def load_def NUL_def elim!: and_then_InrE
        split: if_splits)
  from e obtain n where "id_scan_l (drop pos m) = Inr n" "e = pos + n"
    by (auto simp: id_scan_def elim!: and_then_InrE)
  then have "m ! e = NUL \<or> m ! e = CHR '','' \<or> m ! e = CHR ''}''"
    using id_scan_l_stop [of "drop pos m" n] by (auto simp: add.commute)
  with m' el show ?thesis
    by (auto simp: list_all2_conv_all_nth overwritten_def nth_list_update)
qed

lemma id_value_block:
  assumes "id_value m = Inr (m', v)"
  shows "list_all2 overwritten m m'"
proof -
  from assms consider "m' = m" | pos where "numeric_id m pos = Inr (m', v)"
    by (auto simp: id_value_def elim!: and_then_InrE
        split: option.splits if_splits dest!: quoted_value_block)
  then show ?thesis
    by cases (auto simp: list_all2_overwritten_refl dest: numeric_id_block)
qed

lemma json_copy_of_NUL_last: "NUL \<notin> set (butlast (json_copy_of t))"
  by (auto simp: json_copy_of_def dest: set_takeWhileD)

lemma parse_json_rpc_encrypted:
  assumes "parse_json_rpc t json_data_zero = Inr d"
  shows "encrypted_flag (json_copy_of t) = Inr (encrypted d)"
proof -
  from assms obtain m1 d1 m2 d2 m3 d3 m4 d4 m5 d5 m6 d6 m7 d7 m8 where
    s: "extract_jsonrpc (json_copy_of t, json_data_zero) = Inr (m1, d1)"
    "extract_method (m1, d1) = Inr (m2, d2)"
    "extract_id (m2, d2) = Inr (m3, d3)"
    "extract_encryption (m3, d3) = Inr (m4, d4)"
    "extract_params (m4, d4) = Inr (m5, d5)"
    "extract_result (m5, d5) = Inr (m6, d6)"
    "extract_error_code (m6, d6) = Inr (m7, d7)"
    "extract_error_message (m7, d7) = Inr (m8, d)"
    by (rule parse_json_rpc_steps)
  from s(1) have "m1 = json_copy_of t"
    by (auto simp: extract_jsonrpc_def elim!: and_then_InrE dest: string_field_block)
  moreover from s(2) have "m2 = m1"
    by (auto simp: extract_method_def elim!: and_then_InrE dest: string_field_block)
  moreover from s(3) have "list_all2 overwritten m2 m3"
    by (auto simp: extract_id_def elim!: and_then_InrE dest: id_value_block)
  ultimately have rel: "list_all2 overwritten (json_copy_of t) m3" by simp
  have before: "encrypted d3 = False"
    using extract_jsonrpc_frame [OF s(1)] extract_method_frame [OF s(2)]
      extract_id_frame [OF s(3)]
    by (simp add: json_data_zero_def)
  have after: "encrypted d = encrypted d4"
    using extract_params_frame [OF s(5)] extract_result_frame [OF s(6)]
      extract_error_code_frame [OF s(7)] extract_error_message_frame [OF s(8)]
    by simp
  from s(4) before have "encrypted_flag m3 = Inr (encrypted d4)"
    by (auto simp: extract_encryption_def Let_def elim!: and_then_InrE
        split: option.splits if_splits)
  with rel json_copy_of_NUL_last [of t] after show ?thesis
    by (simp add: encrypted_flag_overwritten)
qed


subsection \<open>The encryption test, read on the text\<close>

text \<open>
  On a terminated copy without overwrites, \<open>strchr\<close> gives the first index of the
  character, the blank-skipping loop steps over exactly the leading spaces and tabs, and
  so the test of lines 436--442 is \<open>true_literal_follows\<close>.
\<close>

lemma strchr_l_terminated:
  assumes "c \<noteq> NUL"
  shows "NUL \<notin> set s \<Longrightarrow> strchr_l c (s @ [NUL]) = Inr (first_index c s)"
  using assms by (induction s) auto

lemma skip_ws_l_terminated:
  "skip_ws_l (s @ [NUL]) = Inr (length (takeWhile is_blank s))"
  by (induction s) (auto simp: is_blank_def NUL_def)

lemma first_index_less: "first_index c s = Some j \<Longrightarrow> j < length s"
  by (induction s arbitrary: j) (auto split: if_splits)

lemma first_occurrence_le: "first_occurrence k s = Some i \<Longrightarrow> i \<le> length s"
  by (induction s arbitrary: i) (auto split: if_splits)

lemma encrypted_flag_terminated:
  assumes nul: "NUL \<notin> set s"
  shows "encrypted_flag (s @ [NUL]) = Inr (true_literal_follows ''encrypted'' s)"
proof -
  let ?k = "dquote # ''encrypted'' @ [dquote]"
  have key: "c_strstr (s @ [NUL]) 0 ?k = Inr (first_occurrence ?k s)"
    using nul by (intro c_strstr_terminated) (simp_all add: NUL_def dquote_def)
  show ?thesis
  proof (cases "first_occurrence ?k s")
    case None
    with key show ?thesis
      by (simp add: encrypted_flag_def value_pos_def true_literal_follows_def)
  next
    case (Some i)
    then have i: "i \<le> length s" by (rule first_occurrence_le)
    have nul_i: "NUL \<notin> set (drop i s)" using nul by (auto dest: in_set_dropD)
    have colon: "c_strchr (s @ [NUL]) i (CHR '':'') =
        Inr (map_option (\<lambda>j. i + j) (first_index (CHR '':'') (drop i s)))"
      using i strchr_l_terminated [of "CHR '':''" "drop i s"] nul_i
      by (simp add: c_strchr_def NUL_def)
    show ?thesis
    proof (cases "first_index (CHR '':'') (drop i s)")
      case None
      with Some key colon show ?thesis
        by (simp add: encrypted_flag_def value_pos_def true_literal_follows_def)
    next
      case j: (Some j)
      then have "j < length (drop i s)" by (rule first_index_less)
      then have q: "i + j + 1 \<le> length s" by simp
      define n where "n = length (takeWhile is_blank (drop (i + j + 1) s))"
      have skip: "skip_ws (s @ [NUL]) (i + j + 1) = Inr (i + j + 1 + n)"
        using q skip_ws_l_terminated [of "drop (i + j + 1) s"]
        by (simp add: skip_ws_def n_def)
      have "n \<le> length (drop (i + j + 1) s)"
        unfolding n_def by (rule length_takeWhile_le)
      with q have pos: "i + j + 1 + n \<le> length s" by simp
      have rest: "drop (i + j + 1 + n) s = dropWhile is_blank (drop (i + j + 1) s)"
        unfolding n_def by (simp add: dropWhile_eq_drop add.commute)
      have "lit_at ''true'' (drop (i + j + 1 + n) (s @ [NUL])) =
          Inr (is_prefix ''true'' (dropWhile is_blank (drop (i + j + 1) s)))"
        using pos rest lit_at_terminated [of "''true''" "drop (i + j + 1 + n) s"]
        by (simp add: NUL_def)
      with Some j key colon skip show ?thesis
        by (simp add: encrypted_flag_def value_pos_def true_literal_follows_def)
    qed
  qed
qed

subsection \<open>An extracted agent identifier is a piece of the copied parameters\<close>




subsection \<open>The claims about the extractor\<close>

text \<open>
  C4 (as amended). In the record extracted from any text, \<open>ciphertext\<close>, \<open>iv\<close> and
  \<open>ratchet_header\<close> are set only if \<open>encrypted\<close> is true; when the flag is false the three
  fields stay unset, whatever else the text contains. The flag is decided by a scan of
  the text, not by its JSON structure: it is true exactly when the first textual
  occurrence of the quoted name \<open>"encrypted"\<close> (as a key or as a value, at any depth) is
  followed, behind the next colon and any spaces and tabs, by the four characters
  \<open>true\<close>. It is the outcome of the test of lines 436--442 on the untouched text, and it
  is false when the quoted name does not occur in the text.
\<close>

theorem C4_encryption_fields_gated:
  assumes "parse_json_rpc t json_data_zero = Inr d"
  shows "(ciphertext d \<noteq> None \<or> iv d \<noteq> None \<or> ratchet_header d \<noteq> None \<longrightarrow> encrypted d) \<and>
         (\<not> encrypted d \<longrightarrow> ciphertext d = None \<and> iv d = None \<and> ratchet_header d = None) \<and>
         encrypted_flag (json_copy_of t) = Inr (encrypted d) \<and>
         (first_occurrence (dquote # ''encrypted'' @ [dquote]) (takeWhile (\<lambda>c. c \<noteq> NUL) t) = None
            \<longrightarrow> \<not> encrypted d) \<and>
         encrypted d = true_literal_follows ''encrypted'' (takeWhile (\<lambda>c. c \<noteq> NUL) t)"
proof -
  have gated: "encrypted d \<or> (ciphertext d = None \<and> iv d = None \<and> ratchet_header d = None)"
    using assms by (rule parse_json_rpc_gated)
  have flag: "encrypted_flag (json_copy_of t) = Inr (encrypted d)"
    using assms by (rule parse_json_rpc_encrypted)
  have nul: "NUL \<notin> set (takeWhile (\<lambda>c. c \<noteq> NUL) t)"
    by (auto dest: set_takeWhileD)
  have absent: "\<not> encrypted d"
    if "first_occurrence (dquote # ''encrypted'' @ [dquote]) (takeWhile (\<lambda>c. c \<noteq> NUL) t) = None"
  proof -
    from nul have "c_strstr (json_copy_of t) 0 (dquote # ''encrypted'' @ [dquote]) = Inr None"
      using that c_strstr_terminated [of "dquote # ''encrypted'' @ [dquote]"
          "takeWhile (\<lambda>c. c \<noteq> NUL) t"]
      by (simp add: json_copy_of_def NUL_def dquote_def)
    then have "encrypted_flag (json_copy_of t) = Inr False"
      by (simp add: encrypted_flag_def value_pos_def)
    with flag show ?thesis by simp
  qed
  have "encrypted_flag (json_copy_of t) =
      Inr (true_literal_follows ''encrypted'' (takeWhile (\<lambda>c. c \<noteq> NUL) t))"
    unfolding json_copy_of_def using nul by (rule encrypted_flag_terminated)
  with flag have literal:
    "encrypted d = true_literal_follows ''encrypted'' (takeWhile (\<lambda>c. c \<noteq> NUL) t)"
    by simp
  from gated flag absent literal show ?thesis by auto
qed

theorem C4_encryption_fields_gated_witness:
  \<open>parse_json_rpc ''{"encrypted":false,"ciphertext":"xyz"}'' json_data_zero = Inr json_data_zero \<and>
   \<not> encrypted json_data_zero \<and>
   ciphertext json_data_zero = None \<and> iv json_data_zero = None \<and>
   ratchet_header json_data_zero = None \<and>
   encrypted_flag (json_copy_of ''{"encrypted":false,"ciphertext":"xyz"}'') = Inr False \<and>
   \<not> true_literal_follows ''encrypted''
       (takeWhile (\<lambda>c. c \<noteq> NUL) ''{"encrypted":false,"ciphertext":"xyz"}'') \<and>
   parse_json_rpc ''{"encrypted":true,"ciphertext":"xyz"}'' json_data_zero =
     Inr (json_data_zero\<lparr>encrypted := True, ciphertext := Some ''xyz''\<rparr>) \<and>
   encrypted_flag (json_copy_of ''{"encrypted":true,"ciphertext":"xyz"}'') = Inr True \<and>
   true_literal_follows ''encrypted''
       (takeWhile (\<lambda>c. c \<noteq> NUL) ''{"encrypted":true,"ciphertext":"xyz"}'') \<and>
   first_occurrence (dquote # ''encrypted'' @ [dquote])
     (takeWhile (\<lambda>c. c \<noteq> NUL) ''{"ciphertext":"xyz"}'') = None \<and>
   parse_json_rpc ''{"ciphertext":"xyz"}'' json_data_zero = Inr json_data_zero\<close>
proof -
  have off: \<open>parse_json_rpc ''{"encrypted":false,"ciphertext":"xyz"}'' json_data_zero =
      Inr json_data_zero\<close>
    by code_simp
  have on: \<open>parse_json_rpc ''{"encrypted":true,"ciphertext":"xyz"}'' json_data_zero =
     Inr (json_data_zero\<lparr>encrypted := True, ciphertext := Some ''xyz''\<rparr>)\<close>
    by code_simp
  have none: \<open>parse_json_rpc ''{"ciphertext":"xyz"}'' json_data_zero = Inr json_data_zero\<close>
    by code_simp
  have occ: \<open>first_occurrence (dquote # ''encrypted'' @ [dquote])
     (takeWhile (\<lambda>c. c \<noteq> NUL) ''{"ciphertext":"xyz"}'') = None\<close>
    by code_simp
  have z: \<open>\<not> encrypted json_data_zero \<and> ciphertext json_data_zero = None \<and>
      iv json_data_zero = None \<and> ratchet_header json_data_zero = None\<close>
    by (simp add: json_data_zero_def)
  from C4_encryption_fields_gated [OF off] C4_encryption_fields_gated [OF on]
    C4_encryption_fields_gated [OF none] off on none occ z
  show ?thesis by simp
qed

text \<open>
  C4, as stated, fails. In the first text the name \<open>encrypted\<close> is no key at all (it is
  the value of \<open>method\<close>), in the second it is a key only inside the \<open>params\<close> object; in
  both the scan finds the quoted name, runs to the next colon, meets \<open>true\<close>, sets the
  flag and extracts \<open>ciphertext\<close>.
\<close>

theorem C4_literal_not_top_level_counterexample:
  \<open>parse_json_rpc ''{"method":"encrypted","x":true,"ciphertext":"abc"}'' json_data_zero =
     Inr (json_data_zero\<lparr>method_str := Some ''encrypted'', encrypted := True,
                         ciphertext := Some ''abc''\<rparr>) \<and>
   parse_json_rpc ''{"params":{"encrypted":true},"ciphertext":"xyz"}'' json_data_zero =
     Inr (json_data_zero\<lparr>params := Some ''{"encrypted":true}'', encrypted := True,
                         ciphertext := Some ''xyz''\<rparr>)\<close>
  by code_simp






text \<open>
  The guard \<open>end > value_start\<close> of the object branches (lines 507, 541 and 578) never
  fails: the brace loop starts on the opening brace and steps over it. So whenever the
  value of the key begins with a brace and no fault arises, the field is set, closed
  object or not.
\<close>

lemma brace_scan_l_moves:
  "brace_scan_l 0 (CHR ''{'' # xs) = Inr n \<Longrightarrow> 0 < n"
  by (auto simp: NUL_def elim!: and_then_InrE)

lemma object_field_always_set:
  assumes "value_pos m key = Inr (Some pos)" and "load m pos = Inr (CHR ''{'')"
    and "object_field m key = Inr (m', v)"
  shows "v \<noteq> None"
proof -
  from assms(2) have "pos < length m" and "m ! pos = CHR ''{''"
    by (auto simp: load_def split: if_splits)
  then have d: "drop pos m = CHR ''{'' # drop (Suc pos) m"
    using Cons_nth_drop_Suc [of pos m] by simp
  from assms have b: "braced_value m pos = Inr (m', v)"
    by (simp add: object_field_def)
  then obtain e where e: "brace_scan m pos = Inr e"
    by (auto simp: braced_value_def elim!: and_then_InrE)
  then obtain n where n: "brace_scan_l 0 (drop pos m) = Inr n" and "e = pos + n"
    by (auto simp: brace_scan_def elim!: and_then_InrE)
  from n have "brace_scan_l 0 (CHR ''{'' # drop (Suc pos) m) = Inr n"
    by (simp only: d)
  then have "0 < n" by (rule brace_scan_l_moves)
  with \<open>e = pos + n\<close> have "pos < e" by simp
  with b e show ?thesis
    by (auto simp: braced_value_def elim!: and_then_InrE)
qed

text \<open>
  C2, at an input where the code departs from it. For the text \<open>"params":{"a":1\<close> the
  brace loop runs to the terminator, \<open>end > value_start\<close> holds, and \<open>params\<close> is set to the
  unterminated text \<open>{"a":1\<close>; the closing brace written to \<open>*end\<close> replaces the terminator
  of the copy, and the next \<open>strstr\<close> (for \<open>"result"\<close>) runs past the end of the block.
\<close>

theorem C2_unterminated_params_is_set:
  \<open>extract_params (json_copy_of ''"params":{"a":1'', json_data_zero) =
     Inr (''"params":{"a":1}'', json_data_zero\<lparr>params := Some ''{"a":1''\<rparr>) \<and>
   extract_result (''"params":{"a":1}'', json_data_zero\<lparr>params := Some ''{"a":1''\<rparr>) =
     Inl OutOfBounds \<and>
   parse_json_rpc ''"params":{"a":1'' json_data_zero = Inl OutOfBounds\<close>
  by code_simp

text \<open>
  C3, at an input where the code departs from it. In \<open>{"params":{"id":5,"x":1}}\<close> the
  unquoted id ends at a comma; line 429 writes a closing brace over that comma, so the
  brace loop for \<open>params\<close>, which runs later on the same copy, stops there: the whole
  function gives \<open>params = {"id":5}\<close>, while the \<open>params\<close> step alone, on the untouched
  text, gives \<open>{"id":5,"x":1}\<close>.
\<close>

theorem C3_id_extraction_changes_params:
  \<open>parse_json_rpc ''{"params":{"id":5,"x":1}}'' json_data_zero =
     Inr (json_data_zero\<lparr>id_str := Some ''5'', params := Some ''{"id":5}''\<rparr>) \<and>
   extract_id (json_copy_of ''{"params":{"id":5,"x":1}}'', json_data_zero) =
     Inr (json_copy_of ''{"params":{"id":5}"x":1}}'', json_data_zero\<lparr>id_str := Some ''5''\<rparr>) \<and>
   extract_params (json_copy_of ''{"params":{"id":5,"x":1}}'', json_data_zero) =
     Inr (json_copy_of ''{"params":{"id":5,"x":1}}'',
          json_data_zero\<lparr>params := Some ''{"id":5,"x":1}''\<rparr>)\<close>
  by code_simp

text \<open>
  C8, at an input where the code departs from it. The text frame \<open>81 07\<close> with the
  payload \<open>{"id":7\<close> is fully captured. The unquoted id runs to the terminator of the
  copy, line 429 writes a closing brace over the terminator, and the next \<open>strstr\<close>
  (for \<open>"encrypted"\<close>) reads past the last byte of the block.
\<close>

theorem C8_scan_runs_past_the_copy:
  \<open>extract_id (json_copy_of ''{"id":7'', json_data_zero) =
     Inr (''{"id":7}'', json_data_zero\<lparr>id_str := Some ''7''\<rparr>) \<and>
   c_strstr ''{"id":7}'' 0 (dquote # ''encrypted'' @ [dquote]) = Inl OutOfBounds \<and>
   parse_json_rpc ''{"id":7'' json_data_zero = Inl OutOfBounds \<and>
   dissect_mcp_websocket ascii_chars [0x81, 0x07, 0x7B, 0x22, 0x69, 0x64, 0x22, 0x3A, 0x37] =
     Inl OutOfBounds\<close>
  by code_simp

subsection \<open>The version gate of the dissector\<close>

text \<open>
  C9. For a fully captured text frame whose payload is parsed without a fault, if the
  extracted \<open>jsonrpc\<close> value is missing or is not exactly \<open>2.0\<close>, the dissector adds the
  WebSocket items only: no "Model Context Protocol" subtree, no MCP field, and no
  write to the protocol or info column.
\<close>

theorem C9_no_mcp_output_unless_version_2_0:
  assumes "parse_ws_header tvb = Inr (Some h)" and "payload_captured tvb h"
    and "opcode h = 1"
    and "tvb_new_subset_length tvb (offset h) (payload_len h) = Inr payload_tvb"
    and "parse_json_rpc (dec payload_tvb) json_data_zero = Inr json_data"
    and "jsonrpc json_data \<noteq> Some ''2.0''"
  shows "dissect_mcp_websocket dec tvb =
           Inr \<lparr>ret = sint (offset h + payload_len h),
                tree = [Subtree ''MCP WebSocket''
                          (ws_items h @ [Item Hf_ws_payload (FString (dec payload_tvb)) []])],
                cols = []\<rparr>"
proof -
  from assms(6) have "\<not> (case jsonrpc json_data of None \<Rightarrow> False | Some v \<Rightarrow> v = ''2.0'')"
    by (cases "jsonrpc json_data") simp_all
  with assms(1-5) show ?thesis
    by (simp add: dissect_mcp_websocket_def Let_def)
qed

theorem C9_no_mcp_output_unless_version_2_0_witness:
  \<open>parse_json_rpc ''{"jsonrpc":"1.0","method":"ping"}'' json_data_zero =
     Inr (json_data_zero\<lparr>jsonrpc := Some ''1.0'', method_str := Some ''ping''\<rparr>) \<and>
   dissect_mcp_websocket ascii_chars
     [0x81, 0x21, 0x7B, 0x22, 0x6A, 0x73, 0x6F, 0x6E, 0x72, 0x70, 0x63, 0x22, 0x3A, 0x22, 0x31,
      0x2E, 0x30, 0x22, 0x2C, 0x22, 0x6D, 0x65, 0x74, 0x68, 0x6F, 0x64, 0x22, 0x3A, 0x22, 0x70,
      0x69, 0x6E, 0x67, 0x22, 0x7D] =
     Inr \<lparr>ret = 35,
          tree = [Subtree ''MCP WebSocket''
                    [Item Hf_ws_opcode (FUInt 1) '' (Text)'',
                     Item Hf_ws_fin (FBool True) [],
                     Item Hf_ws_payload_length (FUInt 33) [],
                     Item Hf_ws_payload (FString ''{"jsonrpc":"1.0","method":"ping"}'') []]],
          cols = []\<rparr>\<close>
proof -
  let ?tvb = "[0x81, 0x21, 0x7B, 0x22, 0x6A, 0x73, 0x6F, 0x6E, 0x72, 0x70, 0x63, 0x22, 0x3A, 0x22,
      0x31, 0x2E, 0x30, 0x22, 0x2C, 0x22, 0x6D, 0x65, 0x74, 0x68, 0x6F, 0x64, 0x22, 0x3A, 0x22,
      0x70, 0x69, 0x6E, 0x67, 0x22, 0x7D] :: tvbuff"
  let ?h = "\<lparr>fin = 1, opcode = 1, offset = 2, payload_len = 33\<rparr> :: ws_header"
  have hd: "parse_ws_header ?tvb = Inr (Some ?h)"
    by (simp add: parse_ws_header_def tvb_captured_length_def tvb_get_guint8_def Let_def)
  have cap: "payload_captured ?tvb ?h"
    by (simp add: payload_captured_def tvb_captured_length_def)
  have sub: "tvb_new_subset_length ?tvb (offset ?h) (payload_len ?h) = Inr (drop 2 ?tvb)"
    by (simp add: tvb_new_subset_length_def)
  have chars: \<open>ascii_chars (drop 2 ?tvb) = ''{"jsonrpc":"1.0","method":"ping"}''\<close>
    by code_simp
  have run: \<open>parse_json_rpc ''{"jsonrpc":"1.0","method":"ping"}'' json_data_zero =
     Inr (json_data_zero\<lparr>jsonrpc := Some ''1.0'', method_str := Some ''ping''\<rparr>)\<close>
    by code_simp
  have ver: \<open>jsonrpc (json_data_zero\<lparr>jsonrpc := Some ''1.0'', method_str := Some ''ping''\<rparr>)
      \<noteq> Some ''2.0''\<close>
    by simp
  have op: "opcode ?h = 1"
    by simp
  have run': \<open>parse_json_rpc (ascii_chars (drop 2 ?tvb)) json_data_zero =
     Inr (json_data_zero\<lparr>jsonrpc := Some ''1.0'', method_str := Some ''ping''\<rparr>)\<close>
    by (simp only: chars run)
  have "dissect_mcp_websocket ascii_chars ?tvb =
      Inr \<lparr>ret = sint (offset ?h + payload_len ?h),
           tree = [Subtree ''MCP WebSocket''
                     (ws_items ?h @ [Item Hf_ws_payload (FString (ascii_chars (drop 2 ?tvb))) []])],
           cols = []\<rparr>"
    by (rule C9_no_mcp_output_unless_version_2_0
        [where dec = ascii_chars, OF hd cap op sub run' ver])
  then have \<open>dissect_mcp_websocket ascii_chars ?tvb =
      Inr \<lparr>ret = sint (offset ?h + payload_len ?h),
           tree = [Subtree ''MCP WebSocket''
                     (ws_items ?h @
                      [Item Hf_ws_payload (FString ''{"jsonrpc":"1.0","method":"ping"}'') []])],
           cols = []\<rparr>\<close>
    by (simp only: chars)
  with run show ?thesis
    by (simp add: ws_items_def)
qed

end
